theory Spec2Isabelle
  imports
    Main
    "HOL-Library.Char_ord"
    "HOL-Library.List_Lexorder"
    "HOL-Library.Product_Lexorder"
begin

section \<open>The event builder of \<open>event_study/mk_events.py\<close>\<close>

text \<open>
  \<open>mk_event_df\<close> reads the recommendations of one ticker into a data frame indexed by
  \<open>Date\<close> with the columns \<open>firm\<close> and \<open>action\<close> (Step 1, through \<open>event_study.config\<close>
  and \<open>pandas.read_csv\<close>), and turns it into the frame of events. The model starts from the
  frame that Step 1 produces, given as the list of its rows in file order, and follows
  Steps 2 to 4 of the source one stage at a time. The one thing the source leaves to its
  library and that the result can depend on, the order in which the sort puts rows of
  equal timestamp, is a parameter of the model (\<open>tie\<close>, see Step 3).

  Conventions of the model:
  \<^item> a data frame is the list of its rows, in row order; a row is a record of its columns;
  \<^item> a cell of \<open>firm\<close> or \<open>action\<close> holds a string (no missing value), made of ASCII
    characters; strings compare as Python compares them, character by character
    on the character codes;
  \<^item> an exception is the value \<open>Inl\<close> of a sum type, so that a build either yields
    \<open>Inr\<close> of the whole frame or \<open>Inl\<close> of the error and no frame at all.
\<close>

subsection \<open>Timestamps and the \<open>Date\<close> index\<close>

text \<open>
  The index is parsed by \<open>parse_dates\<close>, so every index entry is a timestamp: a calendar
  date with a time of day. Pandas timestamps lie between the years 1677 and 2262, so the
  year of a timestamp has four digits.
\<close>

record timestamp =
  year :: nat
  month :: nat
  day :: nat
  hour :: nat
  minute :: nat
  second :: nat
  nanosecond :: nat

text \<open>Timestamps are ordered chronologically: by date, then by time of day.\<close>

definition chrono :: "timestamp \<Rightarrow> nat \<times> nat \<times> nat \<times> nat \<times> nat \<times> nat \<times> nat" where
  "chrono t = (year t, month t, day t, hour t, minute t, second t, nanosecond t)"

text \<open>\<open>Timestamp y m d h mi\<close>: the timestamp of a date and a time given to the minute.\<close>

definition Timestamp :: "nat \<Rightarrow> nat \<Rightarrow> nat \<Rightarrow> nat \<Rightarrow> nat \<Rightarrow> timestamp" where
  "Timestamp y m d h mi =
     \<lparr>year = y, month = m, day = d, hour = h, minute = mi, second = 0, nanosecond = 0\<rparr>"

text \<open>\<open>strftime('%Y-%m-%d')\<close>: four digits of the year, two of the month, two of the day.\<close>

definition digit :: "nat \<Rightarrow> char" where
  "digit n = char_of (48 + n mod 10)"

definition dec2 :: "nat \<Rightarrow> string" where
  "dec2 n = [digit (n div 10), digit n]"

definition dec4 :: "nat \<Rightarrow> string" where
  "dec4 n = [digit (n div 1000), digit (n div 100), digit (n div 10), digit n]"

definition strftime_Ymd :: "timestamp \<Rightarrow> string" where
  "strftime_Ymd t = dec4 (year t) @ ''-'' @ dec2 (month t) @ ''-'' @ dec2 (day t)"

subsection \<open>Strings: \<open>str.upper\<close> and \<open>str.contains\<close>\<close>

definition upper_char :: "char \<Rightarrow> char" where
  "upper_char c =
     (if CHR ''a'' \<le> c \<and> c \<le> CHR ''z'' then char_of (of_char c - (32::nat)) else c)"

definition upper :: "string \<Rightarrow> string" where
  "upper s = map upper_char s"

fun startswith :: "string \<Rightarrow> string \<Rightarrow> bool" where
  "startswith s [] = True"
| "startswith [] (p # ps) = False"
| "startswith (c # cs) (p # ps) = (c = p \<and> startswith cs ps)"

text \<open>\<open>search s p\<close>: the pattern \<open>p\<close> occurs somewhere in \<open>s\<close> (a regular-expression
  search for a literal).\<close>

fun search :: "string \<Rightarrow> string \<Rightarrow> bool" where
  "search [] p = (p = [])"
| "search (c # cs) p = (startswith (c # cs) p \<or> search cs p)"

text \<open>\<open>str.contains('up|down')\<close>: a case-sensitive search for either alternative.\<close>

definition contains_up_down :: "string \<Rightarrow> bool" where
  "contains_up_down s \<longleftrightarrow> search s ''up'' \<or> search s ''down''"

subsection \<open>The frames of the build\<close>

text \<open>The frame after Step 1: index \<open>Date\<close>, columns \<open>firm\<close> and \<open>action\<close>.\<close>

record recommendation =
  Date :: timestamp
  rec_firm :: string
  rec_action :: string

text \<open>The frame after Step 2: \<open>firm\<close> in upper case, and the new column \<open>event_date\<close>.\<close>

record dated_row =
  d_Date :: timestamp
  d_firm :: string
  d_action :: string
  d_event_date :: string

text \<open>The frame after Step 3: one row for each group \<open>(event_date, firm)\<close>.\<close>

record group_row =
  g_event_date :: string
  g_firm :: string
  g_action :: string

text \<open>The frame that is returned: index \<open>event_id\<close>, columns \<open>firm\<close>, \<open>event_date\<close>
  and \<open>event_type\<close>.\<close>

record event =
  event_id :: int
  firm :: string
  event_date :: string
  event_type :: string

text \<open>The exceptions of a build: the \<open>AttributeError\<close> of line 54 on a frame without
  rows, and the \<open>Exception\<close> of \<open>_mk_et\<close>, which carries the value it does not know.\<close>

datatype error = AttributeError | Unknown_value string

subsection \<open>Step 2: firm and event date\<close>

definition step2_row :: "recommendation \<Rightarrow> dated_row" where
  "step2_row r =
     \<lparr>d_Date = Date r, d_firm = upper (rec_firm r), d_action = rec_action r,
      d_event_date = strftime_Ymd (Date r)\<rparr>"

text \<open>
  When the file has no data row, \<open>read_csv\<close> has no date to parse and leaves a plain
  index, which has no \<open>strftime\<close>: line 54 raises \<open>AttributeError\<close>. On any other
  frame the index holds timestamps and both assignments go through, row by row.
\<close>

definition step2 :: "recommendation list \<Rightarrow> error + dated_row list" where
  "step2 df = (if df = [] then Inl AttributeError else Inr (map step2_row df))"

subsection \<open>Step 3: one recommendation for each firm and day\<close>

text \<open>
  \<open>sort_index\<close> orders the rows by their timestamp. Pandas sorts with the quicksort of
  numpy, which is not stable: among rows of equal timestamp it may produce any order, and
  which one depends on the length and the content of the frame. That order is the
  parameter \<open>tie\<close> of the model: \<open>tie i\<close> is the rank that the sort gives to the row at
  position \<open>i\<close> of the frame among the rows of its timestamp (rows of equal rank keep
  their input order). Whatever order the sort has produced, taking for \<open>tie i\<close> the place
  of row \<open>i\<close> in the sorted frame gives that order back (lemma \<open>sort_index_complete\<close>),
  so a statement that holds for every \<open>tie\<close> holds for the frame that the code has
  sorted.
\<close>

definition sort_index :: "(nat \<Rightarrow> nat) \<Rightarrow> dated_row list \<Rightarrow> dated_row list" where
  "sort_index tie df =
     map snd (sort_key (\<lambda>(i, r). (chrono (d_Date r), tie i)) (enumerate 0 df))"

text \<open>The ranks of a stable sort: rows of equal timestamp keep their input order.\<close>

definition input_order :: "nat \<Rightarrow> nat" where
  "input_order i = 0"

text \<open>An order of the rows of a frame is a list \<open>p\<close> of its positions, each of them once;
  \<open>place p i\<close> is the place of position \<open>i\<close> in that order.\<close>

definition place :: "nat list \<Rightarrow> nat \<Rightarrow> nat" where
  "place p i = length (takeWhile (\<lambda>j. j \<noteq> i) p)"

definition group_key :: "dated_row \<Rightarrow> string \<times> string" where
  "group_key r = (d_event_date r, d_firm r)"

text \<open>\<open>groupby\<close> collects the rows of each key, the keys in ascending order, the rows
  of a group in frame order.\<close>

definition groupby :: "dated_row list \<Rightarrow> ((string \<times> string) \<times> dated_row list) list" where
  "groupby df =
     map (\<lambda>k. (k, filter (\<lambda>r. group_key r = k) df)) (sort (remdups (map group_key df)))"

text \<open>\<open>last().reset_index()\<close>: the last row of each group, the key back in columns.\<close>

fun last_row :: "(string \<times> string) \<times> dated_row list \<Rightarrow> group_row list" where
  "last_row (k, rows) =
     (if rows = [] then []
      else [\<lparr>g_event_date = fst k, g_firm = snd k, g_action = d_action (last rows)\<rparr>])"

definition groupby_last :: "dated_row list \<Rightarrow> group_row list" where
  "groupby_last df = concat (map last_row (groupby df))"

definition step3 :: "(nat \<Rightarrow> nat) \<Rightarrow> dated_row list \<Rightarrow> group_row list" where
  "step3 tie df = groupby_last (sort_index tie df)"

subsection \<open>Step 4: the table of events\<close>

text \<open>4.1: the rows whose action contains \<open>up\<close> or \<open>down\<close>.\<close>

definition step4_1 :: "group_row list \<Rightarrow> group_row list" where
  "step4_1 df = filter (\<lambda>g. contains_up_down (g_action g)) df"

text \<open>4.2: \<open>_mk_et\<close>, applied to the column \<open>action\<close> from the first row on; the first
  exception ends the build.\<close>

definition mk_et :: "string \<Rightarrow> error + string" where
  "mk_et v =
     (if v = ''down'' then Inr ''downgrade''
      else if v = ''up'' then Inr ''upgrade''
      else Inl (Unknown_value v))"

fun apply_mk_et :: "string list \<Rightarrow> error + string list" where
  "apply_mk_et [] = Inr []"
| "apply_mk_et (v # vs) =
     (case mk_et v of
        Inl e \<Rightarrow> Inl e
      | Inr t \<Rightarrow> (case apply_mk_et vs of Inl e \<Rightarrow> Inl e | Inr ts \<Rightarrow> Inr (t # ts)))"

definition step4_2 :: "group_row list \<Rightarrow> error + (group_row \<times> string) list" where
  "step4_2 df =
     (case apply_mk_et (map g_action df) of
        Inl e \<Rightarrow> Inl e
      | Inr ts \<Rightarrow> Inr (zip df ts))"

text \<open>4.3 and 4.4: the index becomes \<open>1, 2, ...\<close> in row order; the columns \<open>firm\<close>,
  \<open>event_date\<close> and \<open>event_type\<close> are kept.\<close>

definition step4_3 :: "(group_row \<times> string) list \<Rightarrow> event list" where
  "step4_3 df =
     map (\<lambda>(i, g, t). \<lparr>event_id = int i + 1, firm = g_firm g,
                         event_date = g_event_date g, event_type = t\<rparr>)
         (enumerate 0 df)"

text \<open>Step 4 on the frame of groups.\<close>

definition step4 :: "group_row list \<Rightarrow> error + event list" where
  "step4 df =
     (case step4_2 (step4_1 df) of
        Inl e \<Rightarrow> Inl e
      | Inr rows \<Rightarrow> Inr (step4_3 rows))"

text \<open>The builder, on the frame that Step 1 has read.\<close>

definition mk_event_df :: "(nat \<Rightarrow> nat) \<Rightarrow> recommendation list \<Rightarrow> error + event list" where
  "mk_event_df tie df =
     (case step2 df of
        Inl e \<Rightarrow> Inl e
      | Inr dated \<Rightarrow> step4 (step3 tie dated))"

subsection \<open>Auxiliary notions for the statements\<close>

text \<open>The values that \<open>_mk_et\<close> converts, and what it converts them to.\<close>

definition known_value :: "string \<Rightarrow> bool" where
  "known_value v \<longleftrightarrow> v = ''down'' \<or> v = ''up''"

definition converted :: "string \<Rightarrow> string" where
  "converted v = (if v = ''down'' then ''downgrade'' else ''upgrade'')"

section \<open>Properties of the stages\<close>

subsection \<open>Searching a string\<close>




lemma contains_up [simp]: "contains_up_down ''up''"
  by (simp add: contains_up_down_def)

lemma contains_down [simp]: "contains_up_down ''down''"
  by (simp add: contains_up_down_def)

subsection \<open>Classification\<close>

lemma mk_et_known: "mk_et v = (if known_value v then Inr (converted v) else Inl (Unknown_value v))"
  unfolding mk_et_def known_value_def converted_def by simp

lemma apply_mk_et_Inr:
  "(\<forall>v \<in> set vs. known_value v) \<Longrightarrow> apply_mk_et vs = Inr (map converted vs)"
  by (induction vs) (simp_all add: mk_et_known)

lemma apply_mk_et_Inl:
  "\<forall>v \<in> set pre. known_value v \<Longrightarrow> \<not> known_value v \<Longrightarrow>
   apply_mk_et (pre @ v # post) = Inl (Unknown_value v)"
  by (induction pre) (simp_all add: mk_et_known)

lemma apply_mk_et_Inr_iff:
  "apply_mk_et vs = Inr ts \<longleftrightarrow> (\<forall>v \<in> set vs. known_value v) \<and> ts = map converted vs"
proof (cases "\<forall>v \<in> set vs. known_value v")
  case True
  then show ?thesis using apply_mk_et_Inr[of vs] by auto
next
  case False
  then obtain pre v post where "vs = pre @ v # post" "\<forall>u \<in> set pre. known_value u" "\<not> known_value v"
    using split_list_first_prop[of vs "\<lambda>v. \<not> known_value v"] by auto
  then show ?thesis using False apply_mk_et_Inl[of pre v post] by simp
qed

lemma step4_2_Inr:
  "\<forall>g \<in> set df. known_value (g_action g) \<Longrightarrow>
   step4_2 df = Inr (map (\<lambda>g. (g, converted (g_action g))) df)"
proof -
  assume a: "\<forall>g \<in> set df. known_value (g_action g)"
  have z: "zip df (map f df) = map (\<lambda>g. (g, f g)) df" for f :: "group_row \<Rightarrow> string"
    by (induction df) simp_all
  from a have "apply_mk_et (map g_action df) = Inr (map converted (map g_action df))"
    by (intro apply_mk_et_Inr) simp
  then show ?thesis by (simp add: step4_2_def z comp_def)
qed

lemma step4_2_Inl:
  "\<forall>g \<in> set pre. known_value (g_action g) \<Longrightarrow> \<not> known_value (g_action g) \<Longrightarrow>
   step4_2 (pre @ g # post) = Inl (Unknown_value (g_action g))"
proof -
  assume a: "\<forall>g \<in> set pre. known_value (g_action g)" and b: "\<not> known_value (g_action g)"
  from a have "\<forall>v \<in> set (map g_action pre). known_value v" by simp
  from apply_mk_et_Inl[OF this b, of "map g_action post"]
  show ?thesis by (simp add: step4_2_def)
qed

lemma step4_2_cases:
  obtains (ok) "\<forall>g \<in> set df. known_value (g_action g)"
      "step4_2 df = Inr (map (\<lambda>g. (g, converted (g_action g))) df)"
  | (err) pre g post where "df = pre @ g # post" "\<forall>g \<in> set pre. known_value (g_action g)"
      "\<not> known_value (g_action g)" "step4_2 df = Inl (Unknown_value (g_action g))"
proof (cases "\<forall>g \<in> set df. known_value (g_action g)")
  case True
  then show ?thesis using ok step4_2_Inr by blast
next
  case False
  then obtain pre g post where d: "df = pre @ g # post"
      "\<forall>u \<in> set pre. known_value (g_action u)" "\<not> known_value (g_action g)"
    using split_list_first_prop[of df "\<lambda>g. \<not> known_value (g_action g)"] by auto
  then show ?thesis using err step4_2_Inl by blast
qed

lemma length_step4_3 [simp]: "length (step4_3 rows) = length rows"
  by (simp add: step4_3_def)

lemma nth_step4_3:
  "i < length rows \<Longrightarrow>
   step4_3 rows ! i = \<lparr>event_id = int i + 1, firm = g_firm (fst (rows ! i)),
      event_date = g_event_date (fst (rows ! i)), event_type = snd (rows ! i)\<rparr>"
  by (simp add: step4_3_def nth_enumerate_eq split: prod.splits)

subsection \<open>Grouping\<close>

lemma groupby_last_eq:
  "groupby_last df =
     map (\<lambda>k. \<lparr>g_event_date = fst k, g_firm = snd k,
               g_action = d_action (last (filter (\<lambda>r. group_key r = k) df))\<rparr>)
         (sort (remdups (map group_key df)))"
proof -
  have "concat (map last_row (map (\<lambda>k. (k, filter (\<lambda>r. group_key r = k) df)) ks)) =
        map (\<lambda>k. \<lparr>g_event_date = fst k, g_firm = snd k,
               g_action = d_action (last (filter (\<lambda>r. group_key r = k) df))\<rparr>) ks"
    if "set ks \<subseteq> group_key ` set df" for ks
    using that
  proof (induction ks)
    case Nil
    show ?case by simp
  next
    case (Cons k ks)
    then have "filter (\<lambda>r. group_key r = k) df \<noteq> []"
      by (auto simp: filter_empty_conv)
    with Cons show ?case by simp
  qed
  then show ?thesis by (simp add: groupby_last_def groupby_def)
qed

lemma keys_groupby_last:
  "map (\<lambda>g. (g_event_date g, g_firm g)) (groupby_last df) = sort (remdups (map group_key df))"
  by (simp add: groupby_last_eq comp_def)

lemma keys_groupby_last_strict:
  "sorted_wrt (<) (map (\<lambda>g. (g_event_date g, g_firm g)) (groupby_last df))"
  by (simp add: keys_groupby_last strict_sorted_iff)

lemma in_groupby_last:
  assumes "g \<in> set (groupby_last df)"
  shows "\<exists>r \<in> set df. g_event_date g = d_event_date r \<and> g_firm g = d_firm r"
    and "\<exists>r \<in> set df. g_event_date g = d_event_date r \<and> g_firm g = d_firm r \<and>
           g_action g = d_action r"
proof -
  from assms obtain k where k: "k \<in> group_key ` set df"
    and g: "g = \<lparr>g_event_date = fst k, g_firm = snd k,
               g_action = d_action (last (filter (\<lambda>r. group_key r = k) df))\<rparr>"
    by (auto simp: groupby_last_eq)
  let ?rows = "filter (\<lambda>r. group_key r = k) df"
  from k have ne: "?rows \<noteq> []" by (auto simp: filter_empty_conv)
  then have "last ?rows \<in> set ?rows" by (rule last_in_set)
  then have l: "last ?rows \<in> set df" "group_key (last ?rows) = k" by auto
  have "fst k = d_event_date (last ?rows)" "snd k = d_firm (last ?rows)"
    using arg_cong[OF l(2), of fst] arg_cong[OF l(2), of snd]
    by (simp_all only: group_key_def fst_conv snd_conv)
  with g l(1) show "\<exists>r \<in> set df. g_event_date g = d_event_date r \<and> g_firm g = d_firm r \<and>
           g_action g = d_action r"
    by (intro bexI[of _ "last ?rows"]) simp_all
  then show "\<exists>r \<in> set df. g_event_date g = d_event_date r \<and> g_firm g = d_firm r" by blast
qed

lemma set_sort_index [simp]: "set (sort_index tie df) = set df"
proof -
  have "set (sort_index tie df) = snd ` set (enumerate 0 df)"
    by (simp add: sort_index_def)
  also have "\<dots> = set (map snd (enumerate 0 df))" by (simp only: set_map)
  also have "\<dots> = set df" by (simp only: map_snd_enumerate)
  finally show ?thesis .
qed

subsection \<open>Step 4 as a whole\<close>

lemma step4_Inr_D:
  assumes "step4 df = Inr rows"
  shows "\<forall>g \<in> set (step4_1 df). known_value (g_action g)"
    and "rows = step4_3 (map (\<lambda>g. (g, converted (g_action g))) (step4_1 df))"
proof -
  have "(\<forall>g \<in> set (step4_1 df). known_value (g_action g)) \<and>
        rows = step4_3 (map (\<lambda>g. (g, converted (g_action g))) (step4_1 df))"
  proof (cases "step4_1 df" rule: step4_2_cases)
    case ok
    with assms show ?thesis by (simp add: step4_def)
  next
    case (err pre g post)
    with assms show ?thesis by (simp add: step4_def)
  qed
  then show "\<forall>g \<in> set (step4_1 df). known_value (g_action g)"
    and "rows = step4_3 (map (\<lambda>g. (g, converted (g_action g))) (step4_1 df))" by simp_all
qed

lemma step4_Inr_I:
  "\<forall>g \<in> set (step4_1 df). known_value (g_action g) \<Longrightarrow>
   step4 df = Inr (step4_3 (map (\<lambda>g. (g, converted (g_action g))) (step4_1 df)))"
  by (simp add: step4_def step4_2_Inr)

lemma event_id_step4_3: "map event_id (step4_3 xs) = [1..int (length xs)]"
  by (rule nth_equalityI) (simp_all add: nth_step4_3)

lemma event_type_step4_3: "map event_type (step4_3 xs) = map snd xs"
  by (rule nth_equalityI) (simp_all add: nth_step4_3)

lemma keys_step4_3:
  "map (\<lambda>e. (event_date e, firm e)) (step4_3 xs) =
   map (\<lambda>x. (g_event_date (fst x), g_firm (fst x))) xs"
  by (rule nth_equalityI) (simp_all add: nth_step4_3)

lemma keys_step4_strict:
  assumes "step4 (groupby_last df) = Inr rows"
  shows "sorted_wrt (<) (map (\<lambda>e. (event_date e, firm e)) rows)"
proof -
  have "sorted_wrt (\<lambda>a b. (g_event_date a, g_firm a) < (g_event_date b, g_firm b)) (groupby_last df)"
    using keys_groupby_last_strict[of df] by (simp add: sorted_wrt_map)
  then have "sorted_wrt (\<lambda>a b. (g_event_date a, g_firm a) < (g_event_date b, g_firm b))
     (step4_1 (groupby_last df))"
    unfolding step4_1_def by (rule sorted_wrt_filter)
  then have "sorted_wrt (<) (map (\<lambda>x. (g_event_date (fst x), g_firm (fst x)))
     (map (\<lambda>g. (g, converted (g_action g))) (step4_1 (groupby_last df))))"
    by (simp add: sorted_wrt_map comp_def)
  then show ?thesis
    using step4_Inr_D(2)[OF assms] by (simp only: keys_step4_3)
qed

lemma mk_event_df_empty: "mk_event_df tie [] = Inl AttributeError"
  by (simp add: mk_event_df_def step2_def)

lemma mk_event_df_nonempty:
  "df \<noteq> [] \<Longrightarrow> mk_event_df tie df = step4 (step3 tie (map step2_row df))"
  by (simp add: mk_event_df_def step2_def)

lemma mk_event_df_Inr_D:
  assumes "mk_event_df tie df = Inr rows"
  shows "\<forall>g \<in> set (step4_1 (step3 tie (map step2_row df))). known_value (g_action g)"
    and "rows = step4_3 (map (\<lambda>g. (g, converted (g_action g))) (step4_1 (step3 tie (map step2_row df))))"
    and "df \<noteq> []"
proof -
  show ne: "df \<noteq> []"
  proof
    assume "df = []"
    with assms show False by (simp add: mk_event_df_empty)
  qed
  with assms have s: "step4 (step3 tie (map step2_row df)) = Inr rows"
    by (simp add: mk_event_df_nonempty)
  from step4_Inr_D(1)[OF s]
  show "\<forall>g \<in> set (step4_1 (step3 tie (map step2_row df))). known_value (g_action g)" .
  from step4_Inr_D(2)[OF s]
  show "rows = step4_3 (map (\<lambda>g. (g, converted (g_action g))) (step4_1 (step3 tie (map step2_row df))))" .
qed

subsection \<open>Order of the rows\<close>

lemma key_order_iff_id_order:
  fixes key :: "'a \<Rightarrow> 'k::linorder" and idf :: "'a \<Rightarrow> int"
  assumes s: "sorted_wrt (<) (map key rows)"
    and ids: "map idf rows = [1..int (length rows)]"
    and a: "a \<in> set rows" and b: "b \<in> set rows"
  shows "(key a < key b) = (idf a < idf b)"
proof -
  have id: "idf (rows ! i) = int i + 1" if "i < length rows" for i
  proof -
    have "idf (rows ! i) = map idf rows ! i" using that by simp
    also have "\<dots> = [1..int (length rows)] ! i" by (simp only: ids)
    also have "\<dots> = 1 + int i" using that by (simp add: nth_upto)
    finally show ?thesis by simp
  qed
  have lt: "key (rows ! i) < key (rows ! j)" if "i < j" "j < length rows" for i j
    using sorted_wrt_nth_less[OF s, of i j] that by simp
  from a b obtain i j where i: "i < length rows" "a = rows ! i" and j: "j < length rows" "b = rows ! j"
    by (auto simp: in_set_conv_nth)
  have "(key a < key b) = (i < j)"
  proof
    assume k: "key a < key b"
    show "i < j"
    proof (rule ccontr)
      assume "\<not> i < j"
      then consider "i = j" | "j < i" by linarith
      then show False
      proof cases
        case 1
        with k i j show False by simp
      next
        case 2
        from lt[OF 2 i(1)] have "key b < key a" using i j by simp
        with k show False by (rule less_asym)
      qed
    qed
  next
    assume "i < j"
    from lt[OF this j(1)] i j show "key a < key b" by simp
  qed
  also have "\<dots> = (int i + 1 < int j + 1)" by auto
  also have "\<dots> = (idf a < idf b)"
    by (simp only: i(2) j(2) id[OF i(1)] id[OF j(1)])
  finally show ?thesis .
qed


lemma converted_cases: "converted v = ''upgrade'' \<or> converted v = ''downgrade''"
  by (cases "v = ''down''") (simp_all only: converted_def if_True if_False simp_thms)

subsection \<open>Where a returned row comes from\<close>


lemma in_step3_step2:
  assumes "g \<in> set (step3 tie (map step2_row df))"
  shows "\<exists>r \<in> set df. g_event_date g = strftime_Ymd (Date r) \<and> g_firm g = upper (rec_firm r) \<and>
           g_action g = rec_action r"
proof -
  from assms have "g \<in> set (groupby_last (sort_index tie (map step2_row df)))" by (simp add: step3_def)
  from in_groupby_last(2)[OF this]
  obtain d where d: "d \<in> set (map step2_row df)" "g_event_date g = d_event_date d"
      "g_firm g = d_firm d" "g_action g = d_action d"
    by auto
  from d(1) obtain r where r: "r \<in> set df" "d = step2_row r" by auto
  from r(2) d(2,3,4) have "g_event_date g = strftime_Ymd (Date r) \<and> g_firm g = upper (rec_firm r) \<and>
           g_action g = rec_action r"
    by (simp add: step2_row_def)
  with r(1) show ?thesis by blast
qed

subsection \<open>Errors of step 4\<close>

lemma known_value_contains: "known_value v \<Longrightarrow> contains_up_down v"
  using contains_up contains_down by (auto simp only: known_value_def)


subsection \<open>One record, and two records of one group\<close>

lemma step3_single:
  "step3 tie [step2_row r] =
     [\<lparr>g_event_date = strftime_Ymd (Date r), g_firm = upper (rec_firm r),
       g_action = rec_action r\<rparr>]"
  by (simp add: step3_def step2_row_def sort_index_def groupby_last_def groupby_def
      group_key_def)

lemma step3_pair:
  assumes "strftime_Ymd (Date r1) = strftime_Ymd (Date r2)"
    and "upper (rec_firm r1) = upper (rec_firm r2)"
    and "chrono (Date r1) < chrono (Date r2)"
  shows "step3 tie [step2_row r1, step2_row r2] = step3 tie [step2_row r2]"
    and "step3 tie [step2_row r2, step2_row r1] = step3 tie [step2_row r2]"
proof -
  from assms(3) have le: "chrono (Date r1) \<le> chrono (Date r2)"
    and nle: "\<not> chrono (Date r2) \<le> chrono (Date r1)"
    and nlt: "\<not> chrono (Date r2) < chrono (Date r1)" by simp_all
  have s1: "sort_index tie [step2_row r1, step2_row r2] = [step2_row r1, step2_row r2]"
    using assms(3) le by (simp add: sort_index_def step2_row_def)
  have s2: "sort_index tie [step2_row r2, step2_row r1] = [step2_row r1, step2_row r2]"
    using nle nlt by (simp add: sort_index_def step2_row_def)
  have k: "group_key (step2_row r1) = group_key (step2_row r2)"
    using assms(1,2) by (simp add: group_key_def step2_row_def)
  have g: "groupby_last [step2_row r1, step2_row r2] =
     [\<lparr>g_event_date = strftime_Ymd (Date r2), g_firm = upper (rec_firm r2),
       g_action = rec_action r2\<rparr>]"
    using k by (simp add: groupby_last_def groupby_def) (simp add: group_key_def step2_row_def)
  show "step3 tie [step2_row r1, step2_row r2] = step3 tie [step2_row r2]"
    unfolding step3_single unfolding step3_def s1 g ..
  show "step3 tie [step2_row r2, step2_row r1] = step3 tie [step2_row r2]"
    unfolding step3_single unfolding step3_def s2 g ..
qed

lemma mk_event_df_single:
  "mk_event_df tie [r] =
     (if rec_action r = ''down'' then
        Inr [\<lparr>event_id = 1, firm = upper (rec_firm r), event_date = strftime_Ymd (Date r),
              event_type = ''downgrade''\<rparr>]
      else if rec_action r = ''up'' then
        Inr [\<lparr>event_id = 1, firm = upper (rec_firm r), event_date = strftime_Ymd (Date r),
              event_type = ''upgrade''\<rparr>]
      else if contains_up_down (rec_action r) then Inl (Unknown_value (rec_action r))
      else Inr [])"
proof -
  let ?g = "\<lparr>g_event_date = strftime_Ymd (Date r), g_firm = upper (rec_firm r),
       g_action = rec_action r\<rparr>"
  have m: "mk_event_df tie [r] = step4 [?g]"
    by (simp add: mk_event_df_nonempty step3_single)
  show ?thesis
  proof (cases "contains_up_down (rec_action r)")
    case False
    then have "\<not> known_value (rec_action r)" using known_value_contains by blast
    then have "rec_action r \<noteq> ''down''" "rec_action r \<noteq> ''up''"
      unfolding known_value_def by blast+
    moreover from False have "step4 [?g] = Inr []"
      by (simp add: step4_def step4_1_def step4_2_def step4_3_def)
    ultimately show ?thesis using False m by simp
  next
    case True
    then have f: "step4_1 [?g] = [?g]" by (simp add: step4_1_def)
    show ?thesis
    proof (cases "known_value (rec_action r)")
      case k: True
      then have "step4_2 [?g] = Inr [(?g, converted (rec_action r))]"
        using step4_2_Inr[of "[?g]"] by simp
      then have "step4 [?g] = Inr [\<lparr>event_id = 1, firm = upper (rec_firm r),
          event_date = strftime_Ymd (Date r), event_type = converted (rec_action r)\<rparr>]"
        by (simp add: step4_def f step4_3_def)
      with m have e: "mk_event_df tie [r] = Inr [\<lparr>event_id = 1, firm = upper (rec_firm r),
          event_date = strftime_Ymd (Date r), event_type = converted (rec_action r)\<rparr>]"
        by simp
      from k consider "rec_action r = ''down''" | "rec_action r \<noteq> ''down''" "rec_action r = ''up''"
        unfolding known_value_def by blast
      then show ?thesis
      proof cases
        case 1
        then have "converted (rec_action r) = ''downgrade''" by (simp add: converted_def)
        with e 1 show ?thesis by simp
      next
        case 2
        then have "converted (rec_action r) = ''upgrade''" by (simp add: converted_def)
        with e 2 show ?thesis by simp
      qed
    next
      case nk: False
      then have n: "rec_action r \<noteq> ''down''" "rec_action r \<noteq> ''up''"
        unfolding known_value_def by blast+
      from nk have "step4_2 [?g] = Inl (Unknown_value (rec_action r))"
        using step4_2_Inl[of "[]" ?g "[]"] by simp
      then have "step4 [?g] = Inl (Unknown_value (rec_action r))"
        by (simp add: step4_def f)
      with m n True show ?thesis by simp
    qed
  qed
qed

lemma mk_event_df_pair:
  assumes "strftime_Ymd (Date r1) = strftime_Ymd (Date r2)"
    and "upper (rec_firm r1) = upper (rec_firm r2)"
    and "chrono (Date r1) < chrono (Date r2)"
  shows "mk_event_df tie [r1, r2] = mk_event_df tie [r2]"
    and "mk_event_df tie [r2, r1] = mk_event_df tie [r2]"
  using step3_pair[OF assms, of tie] by (simp_all add: mk_event_df_nonempty)

lemma same_day_strftime:
  "year t1 = year t2 \<Longrightarrow> month t1 = month t2 \<Longrightarrow> day t1 = day t2 \<Longrightarrow>
   strftime_Ymd t1 = strftime_Ymd t2"
  by (simp add: strftime_Ymd_def)

subsection \<open>Frames whose actions are all \<open>up\<close> or \<open>down\<close>\<close>

text \<open>
  On a frame with at least one row whose actions are all exactly \<open>up\<close> or \<open>down\<close>,
  whatever the order of equal timestamps, step 4.1 removes no row of the grouped frame,
  \<open>_mk_et\<close> raises on none, and the build returns its rows.
\<close>

lemma exact_actions_nonempty:
  assumes "\<forall>r \<in> set df. rec_action r = ''up'' \<or> rec_action r = ''down''"
    and "df \<noteq> []"
  shows "step4_1 (step3 tie (map step2_row df)) = step3 tie (map step2_row df) \<and>
         mk_event_df tie df =
           Inr (step4_3 (map (\<lambda>g. (g, if g_action g = ''down'' then ''downgrade'' else ''upgrade''))
                  (step3 tie (map step2_row df))))"
proof -
  have k: "known_value (g_action g)" if "g \<in> set (step3 tie (map step2_row df))" for g
  proof -
    from in_step3_step2[OF that] obtain r where "r \<in> set df" "g_action g = rec_action r" by auto
    with assms(1) show ?thesis by (auto simp only: known_value_def)
  qed
  have c: "contains_up_down (g_action g)" if "g \<in> set (step3 tie (map step2_row df))" for g
    using k[OF that] contains_up contains_down by (auto simp only: known_value_def)
  then have f: "step4_1 (step3 tie (map step2_row df)) = step3 tie (map step2_row df)"
    by (simp add: step4_1_def)
  have "step4 (step3 tie (map step2_row df)) =
     Inr (step4_3 (map (\<lambda>g. (g, converted (g_action g))) (step4_1 (step3 tie (map step2_row df)))))"
    by (rule step4_Inr_I) (simp add: f k)
  then have "mk_event_df tie df = Inr (step4_3 (map (\<lambda>g. (g, converted (g_action g))) (step3 tie (map step2_row df))))"
    by (simp only: mk_event_df_nonempty[OF assms(2)] f)
  with f show ?thesis by (simp only: converted_def simp_thms)
qed

subsection \<open>The orders that \<open>sort_index\<close> can give\<close>

text \<open>
  For every \<open>tie\<close> the sorted frame has the rows of the frame, ordered by timestamp.
  Conversely every order \<open>p\<close> of the rows by timestamp is the one that \<open>sort_index\<close>
  gives for some \<open>tie\<close>, namely \<open>place p\<close>.
\<close>

lemma place_nth:
  assumes "distinct p" and "j < length p"
  shows "place p (p ! j) = j"
proof -
  have "takeWhile (\<lambda>x. x \<noteq> p ! j) p = take j p"
  proof (rule takeWhile_eq_take_P_nth)
    fix i
    assume "i < j" "i < length p"
    with assms show "p ! i \<noteq> p ! j" by (simp add: nth_eq_iff_index_eq)
  next
    show "j < length p \<Longrightarrow> \<not> p ! j \<noteq> p ! j" by simp
  qed
  with assms(2) show ?thesis by (simp add: place_def)
qed

lemma sort_index_complete:
  assumes d: "distinct p" and s: "set p = {0..<length df}"
    and o: "sorted (map (\<lambda>i. chrono (d_Date (df ! i))) p)"
  shows "sort_index (place p) df = map (\<lambda>i. df ! i) p"
proof -
  let ?f = "\<lambda>(i, r). (chrono (d_Date r), place p i)"
  let ?es = "enumerate 0 df"
  let ?q = "map (\<lambda>i. (i, df ! i)) p"
  have len: "length p = length df"
    using distinct_card[OF d] s by simp
  have set_q: "set ?q = set ?es"
  proof -
    have "set ?es = (\<lambda>i. (i, df ! i)) ` {0..<length df}"
      by (auto simp: in_set_enumerate_eq image_iff)
    then show ?thesis using s by simp
  qed
  have strict: "sorted_wrt (<) (map ?f ?q)"
  proof -
    have "map ?f ?q ! j < map ?f ?q ! k" if "j < k" "k < length p" for j k
    proof -
      from that have j: "j < length p" by simp
      have "chrono (d_Date (df ! (p ! j))) \<le> chrono (d_Date (df ! (p ! k)))"
        using sorted_nth_mono[OF o, of j k] that j by simp
      moreover have "place p (p ! j) = j" "place p (p ! k) = k"
        using place_nth[OF d] that j by simp_all
      ultimately show ?thesis using that j by simp
    qed
    then show ?thesis by (simp add: sorted_wrt_iff_nth_less)
  qed
  then have sq: "sorted (map ?f ?q)" and dq: "distinct (map ?f ?q)"
    by (simp_all add: strict_sorted_iff)
  let ?k = "map ?f (sort_key ?f ?es)"
  have sk: "sorted ?k" by (rule sorted_sort_key)
  have setk: "set ?k = set (map ?f ?q)"
  proof -
    have "set ?k = ?f ` set ?es" by (simp only: set_map set_sort)
    also have "\<dots> = ?f ` set ?q" by (simp only: set_q)
    also have "\<dots> = set (map ?f ?q)" by (simp only: set_map)
    finally show ?thesis .
  qed
  have "length ?k = length (map ?f ?q)" using len by simp
  moreover have "card (set (map ?f ?q)) = length (map ?f ?q)" using dq by (rule distinct_card)
  ultimately have "card (set ?k) = length ?k" using setk by simp
  then have dk: "distinct ?k" by (rule card_distinct)
  have eqk: "?k = map ?f ?q"
    by (rule sorted_distinct_set_unique[OF sk dk sq dq setk])
  from dq have iq: "inj_on ?f (set ?q)" by (simp only: distinct_map)
  have "set (sort_key ?f ?es) \<union> set ?q = set ?q"
    by (simp only: set_sort set_q Un_absorb)
  with iq have inj: "inj_on ?f (set (sort_key ?f ?es) \<union> set ?q)" by (simp only:)
  from eqk inj have "sort_key ?f ?es = ?q" by (simp only: inj_on_map_eq_map)
  then show ?thesis by (simp add: sort_index_def comp_def)
qed

lemma sort_index_sorted: "sorted (map (\<lambda>r. chrono (d_Date r)) (sort_index tie df))"
proof -
  let ?f = "\<lambda>(i, r). (chrono (d_Date r), tie i)"
  let ?xs = "sort_key ?f (enumerate 0 df)"
  have "sorted (map ?f ?xs)" by (rule sorted_sort_key)
  then have "sorted_wrt (\<lambda>a b. ?f a \<le> ?f b) ?xs" by (simp only: sorted_map)
  then have "sorted_wrt (\<lambda>a b. chrono (d_Date (snd a)) \<le> chrono (d_Date (snd b))) ?xs"
    by (rule sorted_wrt_mono_rel[rotated]) (auto split: prod.splits)
  then show ?thesis by (simp add: sort_index_def sorted_map)
qed

lemma length_sort_index [simp]: "length (sort_index tie df) = length df"
  by (simp add: sort_index_def)

subsection \<open>Rows of equal timestamp\<close>

text \<open>
  Two records of one firm with the same timestamp: which of them is the last of the group
  is for the sort to decide. With the ranks of a stable sort it is the second, with the
  opposite ranks the first.
\<close>

lemma equal_timestamps_either_row:
  "mk_event_df input_order
     [\<lparr>Date = Timestamp 2020 1 1 0 0, rec_firm = ''ABC'', rec_action = ''up''\<rparr>,
      \<lparr>Date = Timestamp 2020 1 1 0 0, rec_firm = ''ABC'', rec_action = ''down''\<rparr>] =
   Inr [\<lparr>event_id = 1, firm = ''ABC'', event_date = ''2020-01-01'',
         event_type = ''downgrade''\<rparr>] \<and>
   mk_event_df (\<lambda>i. 1 - i)
     [\<lparr>Date = Timestamp 2020 1 1 0 0, rec_firm = ''ABC'', rec_action = ''up''\<rparr>,
      \<lparr>Date = Timestamp 2020 1 1 0 0, rec_firm = ''ABC'', rec_action = ''down''\<rparr>] =
   Inr [\<lparr>event_id = 1, firm = ''ABC'', event_date = ''2020-01-01'',
         event_type = ''upgrade''\<rparr>]"
  by code_simp

section \<open>The claims\<close>

text \<open>
  Claim C5. Whenever the builder succeeds, the \<open>event_id\<close> values of the returned frame,
  read in row order, are exactly \<open>1, 2, ..., N\<close>, where \<open>N\<close> is the number of rows:
  ascending, without gaps.
\<close>

theorem event_ids_dense:
  assumes "mk_event_df tie df = Inr rows"
  shows "map event_id rows = [1..int (length rows)]"
  using mk_event_df_Inr_D(2)[OF assms] by (simp add: event_id_step4_3)

theorem event_ids_dense_witness:
  "mk_event_df input_order
     [\<lparr>Date = Timestamp 2021 6 2 9 30, rec_firm = ''Wedbush'', rec_action = ''down''\<rparr>,
      \<lparr>Date = Timestamp 2021 3 1 8 0, rec_firm = ''Citigroup'', rec_action = ''up''\<rparr>,
      \<lparr>Date = Timestamp 2021 4 7 8 0, rec_firm = ''Barclays'', rec_action = ''main''\<rparr>] =
   Inr [\<lparr>event_id = 1, firm = ''CITIGROUP'', event_date = ''2021-03-01'', event_type = ''upgrade''\<rparr>,
        \<lparr>event_id = 2, firm = ''WEDBUSH'', event_date = ''2021-06-02'', event_type = ''downgrade''\<rparr>] \<and>
   map event_id
       [\<lparr>event_id = 1, firm = ''CITIGROUP'', event_date = ''2021-03-01'', event_type = ''upgrade''\<rparr>,
        \<lparr>event_id = 2, firm = ''WEDBUSH'', event_date = ''2021-06-02'', event_type = ''downgrade''\<rparr>] =
   [1..int (length
       [\<lparr>event_id = 1, firm = ''CITIGROUP'', event_date = ''2021-03-01'', event_type = ''upgrade''\<rparr>,
        \<lparr>event_id = 2, firm = ''WEDBUSH'', event_date = ''2021-06-02'', event_type = ''downgrade''\<rparr>])]"
proof -
  have h: "mk_event_df input_order
     [\<lparr>Date = Timestamp 2021 6 2 9 30, rec_firm = ''Wedbush'', rec_action = ''down''\<rparr>,
      \<lparr>Date = Timestamp 2021 3 1 8 0, rec_firm = ''Citigroup'', rec_action = ''up''\<rparr>,
      \<lparr>Date = Timestamp 2021 4 7 8 0, rec_firm = ''Barclays'', rec_action = ''main''\<rparr>] =
   Inr [\<lparr>event_id = 1, firm = ''CITIGROUP'', event_date = ''2021-03-01'', event_type = ''upgrade''\<rparr>,
        \<lparr>event_id = 2, firm = ''WEDBUSH'', event_date = ''2021-06-02'', event_type = ''downgrade''\<rparr>]"
    by code_simp
  from event_ids_dense[OF h] h show ?thesis by (rule_tac conjI)
qed

text \<open>
  Claim C8. Whenever the builder succeeds, every \<open>event_type\<close> of the returned frame is
  \<open>upgrade\<close> or \<open>downgrade\<close>.
\<close>

theorem event_type_closed:
  assumes "mk_event_df tie df = Inr rows"
  shows "\<forall>e \<in> set rows. event_type e = ''upgrade'' \<or> event_type e = ''downgrade''"
proof
  fix e
  assume e: "e \<in> set rows"
  let ?F = "step4_1 (step3 tie (map step2_row df))"
  have "map event_type rows = map (\<lambda>g. converted (g_action g)) ?F"
    using mk_event_df_Inr_D(2)[OF assms] by (simp add: event_type_step4_3 comp_def)
  moreover from e have "event_type e \<in> set (map event_type rows)" by simp
  ultimately have "event_type e \<in> set (map (\<lambda>g. converted (g_action g)) ?F)" by simp
  then obtain g :: group_row where "event_type e = converted (g_action g)" by auto
  then show "event_type e = ''upgrade'' \<or> event_type e = ''downgrade''"
    using converted_cases[of "g_action g"] by (simp only:)
qed

theorem event_type_closed_witness:
  "mk_event_df input_order
     [\<lparr>Date = Timestamp 2019 11 5 7 45, rec_firm = ''JP Morgan'', rec_action = ''up''\<rparr>,
      \<lparr>Date = Timestamp 2019 11 5 16 0, rec_firm = ''Nomura'', rec_action = ''down''\<rparr>] =
   Inr [\<lparr>event_id = 1, firm = ''JP MORGAN'', event_date = ''2019-11-05'', event_type = ''upgrade''\<rparr>,
        \<lparr>event_id = 2, firm = ''NOMURA'', event_date = ''2019-11-05'', event_type = ''downgrade''\<rparr>] \<and>
   (event_type \<lparr>event_id = 1, firm = ''JP MORGAN'', event_date = ''2019-11-05'', event_type = ''upgrade''\<rparr> = ''upgrade'' \<or>
    event_type \<lparr>event_id = 1, firm = ''JP MORGAN'', event_date = ''2019-11-05'', event_type = ''upgrade''\<rparr> = ''downgrade'') \<and>
   (event_type \<lparr>event_id = 2, firm = ''NOMURA'', event_date = ''2019-11-05'', event_type = ''downgrade''\<rparr> = ''upgrade'' \<or>
    event_type \<lparr>event_id = 2, firm = ''NOMURA'', event_date = ''2019-11-05'', event_type = ''downgrade''\<rparr> = ''downgrade'')"
proof -
  let ?e1 = "\<lparr>event_id = 1, firm = ''JP MORGAN'', event_date = ''2019-11-05'', event_type = ''upgrade''\<rparr>"
  let ?e2 = "\<lparr>event_id = 2, firm = ''NOMURA'', event_date = ''2019-11-05'', event_type = ''downgrade''\<rparr>"
  have h: "mk_event_df input_order
     [\<lparr>Date = Timestamp 2019 11 5 7 45, rec_firm = ''JP Morgan'', rec_action = ''up''\<rparr>,
      \<lparr>Date = Timestamp 2019 11 5 16 0, rec_firm = ''Nomura'', rec_action = ''down''\<rparr>] =
   Inr [?e1, ?e2]"
    by code_simp
  note c = event_type_closed[OF h]
  have "event_type ?e1 = ''upgrade'' \<or> event_type ?e1 = ''downgrade''"
    by (rule bspec[OF c]) simp
  moreover have "event_type ?e2 = ''upgrade'' \<or> event_type ?e2 = ''downgrade''"
    by (rule bspec[OF c]) simp
  ultimately show ?thesis using h by blast
qed

text \<open>
  Claim C6. Whenever the builder succeeds, the returned rows stand in strictly ascending
  order of the pair \<open>(event_date, firm)\<close>, compared lexically, and of two returned rows
  the one with the smaller pair has the smaller \<open>event_id\<close>. This holds for every input
  frame, so in whatever order its rows were given.
\<close>

theorem rows_ordered_by_key:
  assumes "mk_event_df tie df = Inr rows"
  shows "sorted_wrt (<) (map (\<lambda>e. (event_date e, firm e)) rows) \<and>
         (\<forall>a \<in> set rows. \<forall>b \<in> set rows.
            ((event_date a, firm a) < (event_date b, firm b)) = (event_id a < event_id b))"
proof -
  have "step4 (groupby_last (sort_index tie (map step2_row df))) = Inr rows"
    using assms mk_event_df_Inr_D(3)[OF assms] by (simp add: mk_event_df_nonempty step3_def)
  then have s: "sorted_wrt (<) (map (\<lambda>e. (event_date e, firm e)) rows)"
    by (rule keys_step4_strict)
  have ids: "map event_id rows = [1..int (length rows)]"
    using mk_event_df_Inr_D(2)[OF assms] by (simp add: event_id_step4_3)
  from key_order_iff_id_order[OF s ids] s show ?thesis by blast
qed

theorem rows_ordered_by_key_witness:
  "mk_event_df input_order
     [\<lparr>Date = Timestamp 2022 2 10 9 0, rec_firm = ''UBS'', rec_action = ''up''\<rparr>,
      \<lparr>Date = Timestamp 2022 2 10 8 0, rec_firm = ''Argus'', rec_action = ''down''\<rparr>,
      \<lparr>Date = Timestamp 2022 1 31 15 0, rec_firm = ''ubs'', rec_action = ''down''\<rparr>] =
   Inr [\<lparr>event_id = 1, firm = ''UBS'', event_date = ''2022-01-31'', event_type = ''downgrade''\<rparr>,
        \<lparr>event_id = 2, firm = ''ARGUS'', event_date = ''2022-02-10'', event_type = ''downgrade''\<rparr>,
        \<lparr>event_id = 3, firm = ''UBS'', event_date = ''2022-02-10'', event_type = ''upgrade''\<rparr>] \<and>
   sorted_wrt (<) (map (\<lambda>e. (event_date e, firm e))
       [\<lparr>event_id = 1, firm = ''UBS'', event_date = ''2022-01-31'', event_type = ''downgrade''\<rparr>,
        \<lparr>event_id = 2, firm = ''ARGUS'', event_date = ''2022-02-10'', event_type = ''downgrade''\<rparr>,
        \<lparr>event_id = 3, firm = ''UBS'', event_date = ''2022-02-10'', event_type = ''upgrade''\<rparr>])"
proof -
  have h: "mk_event_df input_order
     [\<lparr>Date = Timestamp 2022 2 10 9 0, rec_firm = ''UBS'', rec_action = ''up''\<rparr>,
      \<lparr>Date = Timestamp 2022 2 10 8 0, rec_firm = ''Argus'', rec_action = ''down''\<rparr>,
      \<lparr>Date = Timestamp 2022 1 31 15 0, rec_firm = ''ubs'', rec_action = ''down''\<rparr>] =
   Inr [\<lparr>event_id = 1, firm = ''UBS'', event_date = ''2022-01-31'', event_type = ''downgrade''\<rparr>,
        \<lparr>event_id = 2, firm = ''ARGUS'', event_date = ''2022-02-10'', event_type = ''downgrade''\<rparr>,
        \<lparr>event_id = 3, firm = ''UBS'', event_date = ''2022-02-10'', event_type = ''upgrade''\<rparr>]"
    by code_simp
  from h rows_ordered_by_key[OF h, THEN conjunct1] show ?thesis by (rule conjI)
qed





text \<open>
  Claim C7. When a row whose action contains neither \<open>up\<close> nor \<open>down\<close> reaches the
  classification of step 4.2 (the filter of step 4.1 set aside), the classification raises
  the exception and yields no frame. The exception names the first action, in row order,
  that is neither \<open>down\<close> nor \<open>up\<close>; it names the action of that row when every row
  before it has the action \<open>down\<close> or \<open>up\<close>.
\<close>

theorem unknown_action_is_fatal:
  assumes "g \<in> set df" and "\<not> contains_up_down (g_action g)"
  shows "(\<exists>b \<in> set df. g_action b \<noteq> ''down'' \<and> g_action b \<noteq> ''up'' \<and>
            step4_2 df = Inl (Unknown_value (g_action b))) \<and>
         (\<forall>pre post. df = pre @ g # post \<and>
            (\<forall>x \<in> set pre. g_action x = ''down'' \<or> g_action x = ''up'') \<longrightarrow>
            step4_2 df = Inl (Unknown_value (g_action g)))"
proof
  from assms(2) have nk: "\<not> known_value (g_action g)" using known_value_contains by blast
  show "\<exists>b \<in> set df. g_action b \<noteq> ''down'' \<and> g_action b \<noteq> ''up'' \<and>
            step4_2 df = Inl (Unknown_value (g_action b))"
  proof (cases df rule: step4_2_cases)
    case ok
    with assms(1) nk show ?thesis by blast
  next
    case (err pre b post)
    from err(1) have "b \<in> set df" by simp
    moreover from err(3) have "g_action b \<noteq> ''down'' \<and> g_action b \<noteq> ''up''"
      unfolding known_value_def by blast
    ultimately show ?thesis using err(4) by blast
  qed
  show "\<forall>pre post. df = pre @ g # post \<and>
            (\<forall>x \<in> set pre. g_action x = ''down'' \<or> g_action x = ''up'') \<longrightarrow>
            step4_2 df = Inl (Unknown_value (g_action g))"
  proof (intro allI impI, elim conjE)
    fix pre post
    assume d: "df = pre @ g # post" and p: "\<forall>x \<in> set pre. g_action x = ''down'' \<or> g_action x = ''up''"
    from p have "\<forall>x \<in> set pre. known_value (g_action x)" by (simp only: known_value_def)
    from step4_2_Inl[OF this nk, of post] d
    show "step4_2 df = Inl (Unknown_value (g_action g))" by simp
  qed
qed

theorem unknown_action_is_fatal_witness:
  "contains_up_down ''coverage resumed'' = False \<and>
   step4_2 [\<lparr>g_event_date = ''2020-06-01'', g_firm = ''ABC'', g_action = ''coverage resumed''\<rparr>] =
   Inl (Unknown_value ''coverage resumed'')"
proof -
  let ?g = "\<lparr>g_event_date = ''2020-06-01'', g_firm = ''ABC'', g_action = ''coverage resumed''\<rparr>"
  have h1: "?g \<in> set [?g]" by simp
  have h2: "\<not> contains_up_down (g_action ?g)" by code_simp
  have h3: "[?g] = [] @ ?g # [] \<and> (\<forall>x \<in> set []. g_action x = ''down'' \<or> g_action x = ''up'')"
    by simp
  from unknown_action_is_fatal[OF h1 h2, THEN conjunct2, rule_format, OF h3]
  have "step4_2 [?g] = Inl (Unknown_value ''coverage resumed'')" by simp
  moreover from h2 have "contains_up_down ''coverage resumed'' = False" by simp
  ultimately show ?thesis by blast
qed

text \<open>
  Claim C1, amended. The classification of the rows that survive the relevance filter
  succeeds if and only if the action of every surviving row is exactly \<open>down\<close> or exactly
  \<open>up\<close>; it then assigns \<open>downgrade\<close> to \<open>down\<close> and \<open>upgrade\<close> to \<open>up\<close>. As the claim
  is written (the action only contains \<open>down\<close> or \<open>up\<close>) it fails: the action
  \<open>downgraded to sell\<close> survives the filter and \<open>_mk_et\<close> raises on it.
\<close>

theorem classification_of_survivors:
  "step4_2 (step4_1 df) = Inr rows \<longleftrightarrow>
     (\<forall>g \<in> set (step4_1 df). g_action g = ''down'' \<or> g_action g = ''up'') \<and>
     rows = map (\<lambda>g. (g, if g_action g = ''down'' then ''downgrade'' else ''upgrade'')) (step4_1 df)"
proof (cases "step4_1 df" rule: step4_2_cases)
  case ok
  then show ?thesis by (auto simp only: known_value_def converted_def)
next
  case (err pre g post)
  from err(1) have "g \<in> set (step4_1 df)" by simp
  with err(3) have "\<not> (\<forall>g \<in> set (step4_1 df). g_action g = ''down'' \<or> g_action g = ''up'')"
    unfolding known_value_def by blast
  with err(4) show ?thesis by simp
qed

theorem classification_of_survivors_witness:
  "step4_2 (step4_1
     [\<lparr>g_event_date = ''2023-08-21'', g_firm = ''OPPENHEIMER'', g_action = ''down''\<rparr>,
      \<lparr>g_event_date = ''2023-08-22'', g_firm = ''OPPENHEIMER'', g_action = ''main''\<rparr>]) =
   Inr [(\<lparr>g_event_date = ''2023-08-21'', g_firm = ''OPPENHEIMER'', g_action = ''down''\<rparr>, ''downgrade'')]"
proof -
  have h: "(\<forall>g \<in> set (step4_1
     [\<lparr>g_event_date = ''2023-08-21'', g_firm = ''OPPENHEIMER'', g_action = ''down''\<rparr>,
      \<lparr>g_event_date = ''2023-08-22'', g_firm = ''OPPENHEIMER'', g_action = ''main''\<rparr>]). g_action g = ''down'' \<or> g_action g = ''up'') \<and>
   [(\<lparr>g_event_date = ''2023-08-21'', g_firm = ''OPPENHEIMER'', g_action = ''down''\<rparr>, ''downgrade'')] =
   map (\<lambda>g. (g, if g_action g = ''down'' then ''downgrade'' else ''upgrade'')) (step4_1
     [\<lparr>g_event_date = ''2023-08-21'', g_firm = ''OPPENHEIMER'', g_action = ''down''\<rparr>,
      \<lparr>g_event_date = ''2023-08-22'', g_firm = ''OPPENHEIMER'', g_action = ''main''\<rparr>])"
    by code_simp
  from classification_of_survivors[THEN iffD2, OF h] show ?thesis .
qed

theorem classification_counterexample:
  "contains_up_down ''downgraded to sell'' \<and>
   mk_event_df input_order
     [\<lparr>Date = Timestamp 2020 1 1 9 0, rec_firm = ''ABC'', rec_action = ''downgraded to sell''\<rparr>] =
   Inl (Unknown_value ''downgraded to sell'')"
  by code_simp

text \<open>
  Claim C3, amended. Take two input records of the same calendar date and the same
  upper-cased firm, the second stamped later than the first. In whichever order they are
  given, the builder returns what it returns on the later record alone: the earlier record
  is discarded. When the action of the later record is exactly \<open>down\<close> or exactly \<open>up\<close>,
  that is exactly one row, carrying the classification of the later record. As the claim is
  written (for any two different actions) it fails: with the later action
  \<open>upgrade to buy\<close> the builder raises and there is no output. The two timestamps
  differ, so the order of equal timestamps plays no part: the theorem holds for every
  \<open>tie\<close>.
\<close>

theorem later_record_stands:
  assumes "year (Date r1) = year (Date r2)" and "month (Date r1) = month (Date r2)"
    and "day (Date r1) = day (Date r2)"
    and "upper (rec_firm r1) = upper (rec_firm r2)"
    and "chrono (Date r1) < chrono (Date r2)"
  shows "mk_event_df tie [r1, r2] = mk_event_df tie [r2] \<and>
         mk_event_df tie [r2, r1] = mk_event_df tie [r2] \<and>
         (rec_action r2 = ''down'' \<longrightarrow>
            mk_event_df tie [r1, r2] =
              Inr [\<lparr>event_id = 1, firm = upper (rec_firm r2),
                    event_date = strftime_Ymd (Date r2), event_type = ''downgrade''\<rparr>]) \<and>
         (rec_action r2 = ''up'' \<longrightarrow>
            mk_event_df tie [r1, r2] =
              Inr [\<lparr>event_id = 1, firm = upper (rec_firm r2),
                    event_date = strftime_Ymd (Date r2), event_type = ''upgrade''\<rparr>])"
proof -
  have d: "strftime_Ymd (Date r1) = strftime_Ymd (Date r2)"
    using assms(1,2,3) by (rule same_day_strftime)
  note p = mk_event_df_pair[OF d assms(4,5)]
  have "rec_action r2 = ''down'' \<longrightarrow>
            mk_event_df tie [r2] =
              Inr [\<lparr>event_id = 1, firm = upper (rec_firm r2),
                    event_date = strftime_Ymd (Date r2), event_type = ''downgrade''\<rparr>]"
    by (simp add: mk_event_df_single)
  moreover have "rec_action r2 = ''up'' \<longrightarrow>
            mk_event_df tie [r2] =
              Inr [\<lparr>event_id = 1, firm = upper (rec_firm r2),
                    event_date = strftime_Ymd (Date r2), event_type = ''upgrade''\<rparr>]"
    by (simp add: mk_event_df_single)
  ultimately show ?thesis using p by (simp only: simp_thms)
qed

theorem later_record_stands_witness:
  "mk_event_df input_order
     [\<lparr>Date = Timestamp 2020 2 3 9 0, rec_firm = ''Xyz Capital'', rec_action = ''up''\<rparr>,
      \<lparr>Date = Timestamp 2020 2 3 15 30, rec_firm = ''XYZ Capital'', rec_action = ''down''\<rparr>] =
   Inr [\<lparr>event_id = 1, firm = ''XYZ CAPITAL'', event_date = ''2020-02-03'',
         event_type = ''downgrade''\<rparr>]"
proof -
  let ?r1 = "\<lparr>Date = Timestamp 2020 2 3 9 0, rec_firm = ''Xyz Capital'', rec_action = ''up''\<rparr>"
  let ?r2 = "\<lparr>Date = Timestamp 2020 2 3 15 30, rec_firm = ''XYZ Capital'', rec_action = ''down''\<rparr>"
  have h1: "year (Date ?r1) = year (Date ?r2)" by (simp add: Timestamp_def)
  have h2: "month (Date ?r1) = month (Date ?r2)" by (simp add: Timestamp_def)
  have h3: "day (Date ?r1) = day (Date ?r2)" by (simp add: Timestamp_def)
  have h4: "upper (rec_firm ?r1) = upper (rec_firm ?r2)" by code_simp
  have h5: "chrono (Date ?r1) < chrono (Date ?r2)" by code_simp
  have a: "rec_action ?r2 = ''down''" by simp
  have u: "upper (rec_firm ?r2) = ''XYZ CAPITAL''" by code_simp
  have d: "strftime_Ymd (Date ?r2) = ''2020-02-03''" by code_simp
  from later_record_stands[OF h1 h2 h3 h4 h5] a
  have "mk_event_df input_order [?r1, ?r2] =
     Inr [\<lparr>event_id = 1, firm = upper (rec_firm ?r2),
           event_date = strftime_Ymd (Date ?r2), event_type = ''downgrade''\<rparr>]"
    by blast
  then show ?thesis by (simp only: u d)
qed

theorem later_record_counterexample:
  "mk_event_df input_order
     [\<lparr>Date = Timestamp 2020 2 3 9 0, rec_firm = ''XYZ Capital'', rec_action = ''down''\<rparr>,
      \<lparr>Date = Timestamp 2020 2 3 15 30, rec_firm = ''XYZ Capital'', rec_action = ''upgrade to buy''\<rparr>] =
   Inl (Unknown_value ''upgrade to buy'')"
  by code_simp

text \<open>
  Claim C2, amended. For the two records of firm \<open>ABC\<close> on 2020-01-01 with the actions
  \<open>up\<close> and, stamped later on that day, \<open>down\<close>, the builder returns exactly one row:
  \<open>event_id = 1\<close>, firm \<open>ABC\<close>, event date \<open>2020-01-01\<close>, event type \<open>downgrade\<close>.
  With the actions of the claim as written, \<open>upgrade to buy\<close> and \<open>downgrade to sell\<close>,
  the builder raises the exception for \<open>downgrade to sell\<close> instead.
\<close>

theorem end_to_end_example:
  assumes "year t1 = 2020" and "month t1 = 1" and "day t1 = 1"
    and "year t2 = 2020" and "month t2 = 1" and "day t2 = 1"
    and "chrono t1 < chrono t2"
  shows "mk_event_df tie
           [\<lparr>Date = t1, rec_firm = ''ABC'', rec_action = ''up''\<rparr>,
            \<lparr>Date = t2, rec_firm = ''ABC'', rec_action = ''down''\<rparr>] =
         Inr [\<lparr>event_id = 1, firm = ''ABC'', event_date = ''2020-01-01'',
               event_type = ''downgrade''\<rparr>]"
proof -
  let ?r1 = "\<lparr>Date = t1, rec_firm = ''ABC'', rec_action = ''up''\<rparr>"
  let ?r2 = "\<lparr>Date = t2, rec_firm = ''ABC'', rec_action = ''down''\<rparr>"
  have u: "upper ''ABC'' = ''ABC''" by code_simp
  have y: "dec4 2020 = ''2020''" by code_simp
  have m: "dec2 1 = ''01''" by code_simp
  have s2: "strftime_Ymd t2 = ''2020-01-01''"
    using assms(4,5,6) y m by (simp add: strftime_Ymd_def)
  have d: "strftime_Ymd (Date ?r1) = strftime_Ymd (Date ?r2)"
    using assms(1-6) by (simp add: strftime_Ymd_def)
  have f: "upper (rec_firm ?r1) = upper (rec_firm ?r2)" by simp
  have c: "chrono (Date ?r1) < chrono (Date ?r2)" using assms(7) by simp
  have "mk_event_df tie [?r1, ?r2] = mk_event_df tie [?r2]"
    by (rule mk_event_df_pair(1)[OF d f c])
  also have "\<dots> = Inr [\<lparr>event_id = 1, firm = ''ABC'', event_date = ''2020-01-01'',
               event_type = ''downgrade''\<rparr>]"
    by (simp add: mk_event_df_single u s2)
  finally show ?thesis .
qed

theorem end_to_end_example_witness:
  "mk_event_df input_order
     [\<lparr>Date = Timestamp 2020 1 1 9 0, rec_firm = ''ABC'', rec_action = ''up''\<rparr>,
      \<lparr>Date = Timestamp 2020 1 1 16 30, rec_firm = ''ABC'', rec_action = ''down''\<rparr>] =
   Inr [\<lparr>event_id = 1, firm = ''ABC'', event_date = ''2020-01-01'',
         event_type = ''downgrade''\<rparr>]"
proof -
  have h: "chrono (Timestamp 2020 1 1 9 0) < chrono (Timestamp 2020 1 1 16 30)" by code_simp
  show ?thesis
    by (rule end_to_end_example[OF _ _ _ _ _ _ h]) (simp_all add: Timestamp_def)
qed

theorem end_to_end_counterexample:
  "mk_event_df input_order
     [\<lparr>Date = Timestamp 2020 1 1 9 0, rec_firm = ''ABC'', rec_action = ''upgrade to buy''\<rparr>,
      \<lparr>Date = Timestamp 2020 1 1 16 30, rec_firm = ''ABC'',
        rec_action = ''downgrade to sell''\<rparr>] =
   Inl (Unknown_value ''downgrade to sell'')"
  by code_simp

text \<open>
  Claim C10. When every input record has the action \<open>up\<close> or the action \<open>down\<close>, the
  builder should succeed. On every frame with at least one row it does (lemma
  \<open>exact_actions_nonempty\<close>). The frame without rows, in which every record trivially
  has such an action, is the case the code misses: there the build does not return the
  empty frame of events but raises \<open>AttributeError\<close> at line 54.
\<close>

theorem empty_frame_raises: "mk_event_df tie [] = Inl AttributeError"
  by (simp add: mk_event_df_def step2_def)

end
